theory Spec2Isabelle
  imports Main "HOL-Library.Word"
begin

unbundle bit_operations_syntax

section \<open>efm8.py: flashing an EFM8 over the AN945 HID bootloader\<close>

text \<open>
  A shallow embedding of \<^verbatim>\<open>src/efm8.py\<close>. Python integers are \<open>int\<close>, Python
  lists of integers are \<open>int list\<close>, text lines are \<open>string\<close>. Every exception the
  code can raise is a value of \<open>py_error\<close>; a function that can raise returns
  \<open>py_error + 'a\<close> with \<open>Inl\<close> for the exception.
\<close>

subsection \<open>Constants and exceptions\<close>

definition SETUP :: int where "SETUP = 0x31"
definition ERASE :: int where "ERASE = 0x32"
definition WRITE :: int where "WRITE = 0x33"
definition VERIFY :: int where "VERIFY = 0x34"
definition RUN :: int where "RUN = 0x36"

text \<open>
  \<open>Unsupported\<close>, \<open>BadChecksum\<close> and \<open>BadResponse\<close> are the three exception classes of
  the module; \<open>IndexError\<close>, \<open>ValueError\<close> and \<open>TypeError\<close> are the built-in exceptions
  its expressions can raise.
\<close>

datatype py_error =
  Unsupported | BadChecksum | BadResponse | IndexError | ValueError | TypeError

subsection \<open>Python primitives used by the module\<close>

text \<open>
  \<open>range(start, stop, step)\<close> for a positive step, as the list of its values. The module
  only uses the constant steps 2, 64 and 128.
\<close>

function py_range :: "nat \<Rightarrow> nat \<Rightarrow> nat \<Rightarrow> nat list" where
  "py_range start stop step =
     (if step = 0 \<or> stop \<le> start then []
      else start # py_range (start + step) stop step)"
  by pat_completeness auto
termination
  by (relation "measure (\<lambda>(start, stop, step). stop - start)") auto

declare py_range.simps [simp del]

text \<open>The slice \<open>s[i:j]\<close> for \<open>0 \<le> i\<close>: it is cut at the end of \<open>s\<close> and never raises.\<close>

definition py_slice :: "'a list \<Rightarrow> nat \<Rightarrow> nat \<Rightarrow> 'a list" where
  "py_slice s i j = take (j - i) (drop i s)"

text \<open>\<open>s.startswith(p)\<close>.\<close>

definition startswith :: "string \<Rightarrow> string \<Rightarrow> bool" where
  "startswith s p = (take (length p) s = p)"

text \<open>
  A list comprehension whose element expression can raise: the elements are computed
  from left to right and the first exception ends the comprehension.
\<close>

fun traverse :: "('a \<Rightarrow> py_error + 'b) \<Rightarrow> 'a list \<Rightarrow> py_error + 'b list" where
  "traverse f [] = Inr []"
| "traverse f (x # xs) =
     (case f x of
        Inl e \<Rightarrow> Inl e
      | Inr y \<Rightarrow> (case traverse f xs of Inl e \<Rightarrow> Inl e | Inr ys \<Rightarrow> Inr (y # ys)))"

subsection \<open>Checksums\<close>

text \<open>
  \<^verbatim>\<open>
  def twos_complement(input_value, num_bits=8):
      mask = 2**(num_bits - 1)
      return ((input_value & mask) - (input_value & ~mask)) & ((2 ** num_bits) - 1)
  \<close>
  For \<open>num_bits < 1\<close> the power \<open>2**(num_bits - 1)\<close> is a float and \<open>&\<close> raises
  \<open>TypeError\<close>.
\<close>

definition twos_complement :: "int \<Rightarrow> int \<Rightarrow> py_error + int" where
  "twos_complement input_value num_bits =
     (if num_bits < 1 then Inl TypeError
      else
        let mask = 2 ^ nat (num_bits - 1)
        in Inr (((input_value AND mask) - (input_value AND NOT mask))
                  AND (2 ^ nat num_bits - 1)))"

text \<open>
  The checksum of the bytes of a record, as \<open>read_intel_hex\<close> computes it:
  \<^verbatim>\<open>twos_complement(sum([...]) & 0xFF)\<close>, with the default width 8.
\<close>

definition record_checksum :: "int list \<Rightarrow> py_error + int" where
  "record_checksum bs = twos_complement (sum_list bs AND 0xFF) 8"

subsection \<open>Reading the Intel HEX file\<close>

text \<open>
  \<open>int(s, 16)\<close> as Python 3 reads a string whose characters have code points below 256
  (here a slice of at most four characters of a line). White space around the number is
  skipped: the characters 9 to 13 and 32, and 0x85 and 0xA0. A sign may come first,
  then \<open>0x\<close> or \<open>0X\<close>, which one underscore may follow. Then come hexadecimal digits in
  either case, with single underscores between digits only; there is at least one digit.
  Any other string raises \<open>ValueError\<close>.
\<close>

definition is_space :: "char \<Rightarrow> bool" where
  "is_space c = ((of_char c :: nat) \<in> {9, 10, 11, 12, 13, 32, 133, 160})"

definition hexdigit :: "char \<Rightarrow> int option" where
  "hexdigit c =
     (let n = (of_char c :: nat) in
      if 48 \<le> n \<and> n \<le> 57 then Some (int n - 48)
      else if 97 \<le> n \<and> n \<le> 102 then Some (int n - 87)
      else if 65 \<le> n \<and> n \<le> 70 then Some (int n - 55)
      else None)"

definition strip_sign :: "string \<Rightarrow> bool \<times> string" where
  "strip_sign s =
     (case s of
        [] \<Rightarrow> (False, [])
      | c # r \<Rightarrow>
          if c = CHR ''-'' then (True, r)
          else if c = CHR ''+'' then (False, r)
          else (False, s))"

definition strip_prefix :: "string \<Rightarrow> string" where
  "strip_prefix s =
     (if 2 \<le> length s \<and> s ! 0 = CHR ''0'' \<and> (s ! 1 = CHR ''x'' \<or> s ! 1 = CHR ''X'')
      then (if take 1 (drop 2 s) = ''_'' then drop 3 s else drop 2 s)
      else s)"

definition digit_or_underscore :: "char \<Rightarrow> bool" where
  "digit_or_underscore c = (hexdigit c \<noteq> None \<or> c = CHR ''_'')"

fun double_underscore :: "string \<Rightarrow> bool" where
  "double_underscore (a # b # r) =
     ((a = CHR ''_'' \<and> b = CHR ''_'') \<or> double_underscore (b # r))"
| "double_underscore r = False"

definition int16 :: "string \<Rightarrow> py_error + int" where
  "int16 s =
     (let (negative, s1) = strip_sign (dropWhile is_space s);
          s2 = strip_prefix s1;
          body = takeWhile digit_or_underscore s2;
          rest = dropWhile digit_or_underscore s2
      in
        if body = [] \<or> hd body = CHR ''_'' \<or> last body = CHR ''_'' \<or> double_underscore body
           \<or> \<not> list_all is_space rest
        then Inl ValueError
        else
          let v = foldl (\<lambda>acc d. 16 * acc + d) 0 (List.map_filter hexdigit body)
          in Inr (if negative then - v else v))"

text \<open>
  The slice \<open>s[i:j]\<close> for integers \<open>i\<close> and \<open>j\<close>: a negative index counts from the end
  of \<open>s\<close>, and both are cut to the range from 0 to the length of \<open>s\<close>.
\<close>

definition py_slice_int :: "'a list \<Rightarrow> int \<Rightarrow> int \<Rightarrow> 'a list" where
  "py_slice_int s i j =
     (let n = int (length s);
          i' = (if i < 0 then max (i + n) 0 else min i n);
          j' = (if j < 0 then max (j + n) 0 else min j n)
      in py_slice s (nat i') (nat j'))"

text \<open>
  The body of the loop over the lines, for one line and the loop's two variables \<open>data\<close>
  and \<open>address\<close>. \<open>Next\<close> is the end of an iteration (also by \<open>continue\<close>), \<open>Break\<close> is
  \<open>break\<close>; both carry the variables. \<open>line[0]\<close> raises \<open>IndexError\<close> on an empty
  line (\<open>readlines()\<close> returns none). \<open>len\<close> is the source's \<open>length\<close>; it is negative
  when \<open>int\<close> reads a byte count below \<open>-4\<close>, and then \<open>line[length:length + 2]\<close> counts
  from the end of the line. \<open>range(1, length, 2)\<close> and \<open>range(9, length, 2)\<close> have no
  element unless \<open>length\<close> is positive, so they are ranges of natural numbers up to
  \<open>nat len\<close>.
\<close>

datatype ctl = Next | Break

definition read_line ::
  "string \<Rightarrow> int list \<Rightarrow> int \<Rightarrow> py_error + (ctl \<times> int list \<times> int)" where
  "read_line line data address =
     (if line = [] then Inl IndexError
      else if hd line \<noteq> CHR '':'' then Inr (Next, data, address)
      else if startswith line '':020000040000FA'' then Inr (Next, data, address)
      else if startswith line '':00000001FF'' then Inr (Break, data, address)
      else if py_slice line 7 9 \<noteq> ''00'' then Inl Unsupported
      else
       (case int16 (py_slice line 3 7) of
          Inl e \<Rightarrow> Inl e
        | Inr a \<Rightarrow>
           (if a \<noteq> address then Inl Unsupported
            else
             (case int16 (py_slice line 1 3) of
                Inl e \<Rightarrow> Inl e
              | Inr n \<Rightarrow>
                 (let len = 9 + n * 2 in
                  (case int16 (py_slice_int line len (len + 2)) of
                     Inl e \<Rightarrow> Inl e
                   | Inr c \<Rightarrow>
                      (case traverse (\<lambda>x. int16 (py_slice line x (x + 2)))
                              (py_range 1 (nat len) 2) of
                         Inl e \<Rightarrow> Inl e
                       | Inr bs \<Rightarrow>
                          (case record_checksum bs of
                             Inl e \<Rightarrow> Inl e
                           | Inr s \<Rightarrow>
                              (if c \<noteq> s then Inl BadChecksum
                               else
                                (case traverse (\<lambda>x. int16 (py_slice line x (x + 2)))
                                        (py_range 9 (nat len) 2) of
                                   Inl e \<Rightarrow> Inl e
                                 | Inr ds \<Rightarrow> Inr (Next, data @ ds, address + n)))))))))))"

fun read_lines ::
  "string list \<Rightarrow> int list \<Rightarrow> int \<Rightarrow> py_error + (ctl \<times> int list \<times> int)" where
  "read_lines [] data address = Inr (Next, data, address)"
| "read_lines (line # lines) data address =
     (case read_line line data address of
        Inl e \<Rightarrow> Inl e
      | Inr (Break, data', address') \<Rightarrow> Inr (Break, data', address')
      | Inr (Next, data', address') \<Rightarrow> read_lines lines data' address')"

text \<open>
  \<open>read_intel_hex\<close> on the lines that \<open>hexfile.readlines()\<close> returns (opening and
  reading the file is outside the model).
\<close>

definition read_intel_hex :: "string list \<Rightarrow> py_error + int list" where
  "read_intel_hex lines =
     (case read_lines lines [] 0 of
        Inl e \<Rightarrow> Inl e
      | Inr (_, data, _) \<Rightarrow> if data = [] then Inl Unsupported else Inr data)"

subsection \<open>Building the frames\<close>

definition toaddr :: "int \<Rightarrow> int list" where
  "toaddr addr = [drop_bit 8 addr, addr AND 0xFF]"

text \<open>
  Modelled from the spec: \<open>CRCCCITT().calculate\<close> of the PyCRC package, which is not
  under \<^verbatim>\<open>src/\<close>. The spec gives CRC-CCITT in its XModem variant: polynomial 0x1021,
  initial value 0x0000, on 16 bits, each byte entering at the high end.
\<close>

fun crc_shift :: "nat \<Rightarrow> 16 word \<Rightarrow> 16 word" where
  "crc_shift 0 c = c"
| "crc_shift (Suc k) c =
     crc_shift k (if bit c 15 then push_bit 1 c XOR 0x1021 else push_bit 1 c)"

definition crc_update :: "16 word \<Rightarrow> 8 word \<Rightarrow> 16 word" where
  "crc_update c b = crc_shift 8 (c XOR push_bit 8 (ucast b))"

definition CRCCCITT_calculate :: "8 word list \<Rightarrow> 16 word" where
  "CRCCCITT_calculate buf = foldl crc_update 0 buf"

text \<open>
  \<open>crc(data)\<close>: \<open>bytes(data)\<close> (and \<open>chr\<close> under Python 2) raises \<open>ValueError\<close> when an
  element is not in \<open>range(256)\<close>.
\<close>

definition is_bytes :: "int list \<Rightarrow> bool" where
  "is_bytes data = list_all (\<lambda>x. 0 \<le> x \<and> x < 256) data"

definition crc :: "int list \<Rightarrow> py_error + int list" where
  "crc data =
     (if is_bytes data then
        let ret = uint (CRCCCITT_calculate (map word_of_int data))
        in Inr [drop_bit 8 ret, ret AND 0xFF]
      else Inl ValueError)"

definition create_frame :: "int \<Rightarrow> int list \<Rightarrow> int list" where
  "create_frame cmd data = [36, 1 + int (length data), cmd] @ data"

text \<open>The frame that the loop of \<open>to_frames\<close> appends for the chunk at \<open>addr\<close>.\<close>

definition chunk_frame :: "int list \<Rightarrow> nat \<Rightarrow> int list" where
  "chunk_frame data addr =
     create_frame (if addr mod 0x200 = 0 then ERASE else WRITE)
       (toaddr (int addr) @ py_slice data addr (addr + 128))"

text \<open>
  \<open>to_frames\<close> assigns to \<open>data[0]\<close>, and \<open>data\<close> is the caller's list: the model
  returns the frames together with the list as the call leaves it.
\<close>

definition to_frames ::
  "int list \<Rightarrow> bool \<Rightarrow> bool \<Rightarrow> py_error + (int list list \<times> int list)" where
  "to_frames data checksum run =
     (case data of
        [] \<Rightarrow> Inl IndexError
      | data_zero # _ \<Rightarrow>
         (let data = list_update data 0 0xFF;
              frames = [create_frame SETUP [0xa5, 0xf1, 0x00]];
              frames = frames @ map (chunk_frame data) (py_range 0 (length data) 128)
          in
           (case (if checksum then
                   (case crc data of
                      Inl e \<Rightarrow> Inl e
                    | Inr c \<Rightarrow>
                        Inr (frames @
                          [create_frame VERIFY
                             ([0, 0] @ toaddr (int (length data) - 1) @ c)]))
                  else Inr frames) of
              Inl e \<Rightarrow> Inl e
            | Inr frames \<Rightarrow>
               (let frames = frames @ [create_frame WRITE [0, 0, data_zero]];
                    frames = (if run then frames @ [create_frame RUN [0, 0]] else frames)
                in Inr (frames, data)))))"

subsection \<open>Sending the frames\<close>

text \<open>
  The HID device is the transport, outside the module. Its state is the feature reports
  sent so far and the number of reports read; what it answers is a parameter, the report
  that the \<open>k\<close>-th \<open>get_feature_report\<close> returns, a list of bytes. The arguments
  \<open>manufacturer\<close>, \<open>product\<close> and \<open>serial\<close> of \<open>flash\<close> only select the device to open;
  opening, closing and printing are not modelled.
\<close>

record hid_device =
  sent :: "int list list"
  reads :: nat

definition send_feature_report :: "int list \<Rightarrow> hid_device \<Rightarrow> hid_device" where
  "send_feature_report report dev = dev\<lparr>sent := sent dev @ [report]\<rparr>"

definition get_feature_report ::
  "(nat \<Rightarrow> 8 word list) \<Rightarrow> hid_device \<Rightarrow> 8 word list \<times> hid_device" where
  "get_feature_report replies dev = (replies (reads dev), dev\<lparr>reads := reads dev + 1\<rparr>)"

text \<open>
  The inner loop: the frame goes out in feature reports of a 0 and at most 64 elements of
  the frame, \<^verbatim>\<open>[0] + frame[off:off + 64]\<close> for \<open>off\<close> in \<open>range(0, len(frame), 64)\<close>.
\<close>

definition feature_reports :: "int list \<Rightarrow> int list list" where
  "feature_reports frame =
     map (\<lambda>off. 0 # py_slice frame off (off + 64)) (py_range 0 (length frame) 64)"

definition send_frame :: "int list \<Rightarrow> hid_device \<Rightarrow> hid_device" where
  "send_frame frame dev =
     foldl (\<lambda>d report. send_feature_report report d) dev (feature_reports frame)"

text \<open>
  The loop over the frames. \<open>report[-1]\<close> raises \<open>IndexError\<close> on an empty report and
  \<open>frame[2]\<close> on a frame of fewer than three elements.
\<close>

fun flash_frames ::
  "(nat \<Rightarrow> 8 word list) \<Rightarrow> int list list \<Rightarrow> hid_device \<Rightarrow> (py_error + unit) \<times> hid_device" where
  "flash_frames replies [] dev = (Inr (), dev)"
| "flash_frames replies (frame # frames) dev =
     (let dev = send_frame frame dev;
          (report, dev) = get_feature_report replies dev
      in
        if report = [] then (Inl IndexError, dev)
        else if last report \<noteq> 64 then
          (if length frame < 3 then (Inl IndexError, dev)
           else if frame ! 2 = VERIFY then (Inl BadChecksum, dev)
           else (Inl BadResponse, dev))
        else flash_frames replies frames dev)"

definition flash :: "(nat \<Rightarrow> 8 word list) \<Rightarrow> int list list \<Rightarrow> (py_error + unit) \<times> hid_device" where
  "flash replies frames = flash_frames replies frames \<lparr>sent = [], reads = 0\<rparr>"

section \<open>Auxiliary facts\<close>

subsection \<open>Bit operations on Python integers\<close>

lemma and_split: "((v::int) AND m) + (v AND NOT m) = v"
proof -
  have "(v AND m) AND (v AND NOT m) = 0"
    by (rule bit_eqI) (auto simp: bit_simps)
  then have "(v AND m) + (v AND NOT m) = (v AND m) OR (v AND NOT m)"
    by (rule disjunctive_add_eq_or)
  also have "\<dots> = v"
    by (rule bit_eqI) (auto simp: bit_simps)
  finally show ?thesis .
qed

lemma and_exp_cases: "(v::int) AND 2 ^ k = 0 \<or> v AND 2 ^ k = 2 ^ k"
proof (cases "bit v k")
  case True
  have "v AND 2 ^ k = 2 ^ k"
    by (rule bit_eqI) (use True in \<open>auto simp: bit_simps\<close>)
  then show ?thesis by simp
next
  case False
  then show ?thesis by (simp add: and_exp_eq_0_iff_not_bit)
qed

lemma and_low: "(v::int) AND (2 ^ n - 1) = v mod 2 ^ n"
  by (simp flip: mask_eq_exp_minus_1 take_bit_eq_mask add: take_bit_eq_mod)

lemma and_255: "(a::int) AND 255 = a mod 256"
proof -
  have "(255::int) = mask 8" by (simp add: mask_eq_exp_minus_1)
  then have "a AND 255 = take_bit 8 a" by (simp add: take_bit_eq_mask)
  then show ?thesis by (simp add: take_bit_eq_mod)
qed

lemma twos_complement_eq:
  assumes n: "1 \<le> n"
  shows "twos_complement v n = Inr ((2 ^ nat n - v) mod 2 ^ nat n)"
proof -
  define k where "k = nat (n - 1)"
  have nk: "nat n = Suc k" using n by (simp add: k_def)
  define h where "h = v AND 2 ^ k"
  define l where "l = v AND NOT (2 ^ k)"
  have v: "v = h + l" by (simp add: h_def l_def and_split)
  have "h = 0 \<or> h = 2 ^ k" unfolding h_def by (rule and_exp_cases)
  then have "(h - l) mod 2 ^ Suc k = (2 ^ Suc k - v) mod 2 ^ Suc k"
  proof
    assume "h = 0"
    then show ?thesis
      using v by (simp add: mod_diff_left_eq [symmetric, of "2 ^ Suc k"] del: power_Suc)
  next
    assume "h = 2 ^ k"
    then have "2 ^ Suc k - v = h - l" using v by simp
    then show ?thesis by simp
  qed
  then show ?thesis
    using n by (simp add: twos_complement_def Let_def and_low nk h_def l_def k_def del: power_Suc)
qed

lemma record_checksum_eq: "record_checksum bs = Inr ((256 - sum_list bs mod 256) mod 256)"
  using twos_complement_eq [of 8 "sum_list bs AND 0xFF"]
  by (simp add: record_checksum_def and_255)

subsection \<open>Ranges\<close>

lemma py_range_eq_map:
  "0 < step \<Longrightarrow>
   py_range start stop step =
     map (\<lambda>k. start + step * k) [0..<(stop - start + step - 1) div step]"
proof (induction start stop step rule: py_range.induct)
  case (1 start stop step)
  show ?case
  proof (cases "stop \<le> start")
    case True
    then show ?thesis using "1.prems" by (simp add: py_range.simps [of start stop step])
  next
    case False
    define m where "m = (stop - (start + step) + step - 1) div step"
    have cnt: "(stop - start + step - 1) div step = Suc m"
    proof (cases "start + step \<le> stop")
      case True
      then have "stop - start + step - 1 = (stop - (start + step) + step - 1) + step"
        using "1.prems" by simp
      then have "(stop - start + step - 1) div step =
          ((stop - (start + step) + step - 1) + step) div step"
        by (rule arg_cong)
      also have "\<dots> = Suc m"
        unfolding m_def using "1.prems" by (simp only: div_add_self2)
      finally show ?thesis .
    next
      case F: False
      then have "m = 0" using "1.prems" by (simp add: m_def)
      moreover have "step \<le> stop - start + step - 1" "stop - start + step - 1 < 2 * step"
        using F False by simp_all
      then have "(stop - start + step - 1) div step = 1"
        by (simp add: div_nat_eqI)
      ultimately show ?thesis by simp
    qed
    have "py_range start stop step = start # py_range (start + step) stop step"
      using False "1.prems" by (simp add: py_range.simps [of start stop step])
    also have "py_range (start + step) stop step =
        map (\<lambda>k. start + step + step * k) [0..<m]"
      using "1.IH" False "1.prems" by (simp add: m_def)
    also have "start # map (\<lambda>k. start + step + step * k) [0..<m] =
        map (\<lambda>k. start + step * k) [0..<Suc m]"
      by (simp add: upt_conv_Cons map_Suc_upt [symmetric] del: upt_Suc)
    finally show ?thesis by (simp only: cnt)
  qed
qed

lemma chunk_addrs: "py_range 0 n 128 = map (\<lambda>k. 128 * k) [0..<(n + 127) div 128]"
  by (simp add: py_range_eq_map add.commute)

subsection \<open>The shape of the frame list\<close>

lemma toaddr_div_mod: "toaddr a = [a div 256, a mod 256]"
  by (simp add: toaddr_def drop_bit_eq_div and_255)

lemma is_bytes_Cons_255 [simp]: "is_bytes (255 # rest) = is_bytes rest"
  by (simp add: is_bytes_def)

lemma is_bytes_Cons: "is_bytes (d # rest) \<Longrightarrow> is_bytes rest"
  by (simp add: is_bytes_def)

lemma crc_cases:
  "crc data =
     (if is_bytes data
      then Inr [uint (CRCCCITT_calculate (map word_of_int data)) div 256,
                uint (CRCCCITT_calculate (map word_of_int data)) mod 256]
      else Inl ValueError)"
  by (simp add: crc_def Let_def drop_bit_eq_div and_255)

lemma to_frames_Cons:
  assumes "checksum \<longrightarrow> crc (255 # rest) = Inr ck"
  shows "to_frames (d0 # rest) checksum run =
     Inr (create_frame SETUP [0xa5, 0xf1, 0] #
          map (chunk_frame (255 # rest)) (py_range 0 (Suc (length rest)) 128) @
          (if checksum
           then [create_frame VERIFY ([0, 0] @ toaddr (int (length rest)) @ ck)] else []) @
          create_frame WRITE [0, 0, d0] # (if run then [create_frame RUN [0, 0]] else []),
          255 # rest)"
  using assms by (simp add: to_frames_def Let_def)

lemma chunk_frame_eq:
  "chunk_frame data (128 * k) =
     create_frame (if (128 * k) mod 512 = 0 then ERASE else WRITE)
       ([int (128 * k) div 256, int (128 * k) mod 256] @ take 128 (drop (128 * k) data))"
  by (simp add: chunk_frame_def toaddr_div_mod py_slice_def)

lemma chunks_nth:
  "k < (n + 127) div 128 \<Longrightarrow>
   map (chunk_frame data) (py_range 0 n 128) ! k = chunk_frame data (128 * k)"
  by (simp add: chunk_addrs)

lemma chunks_length: "length (map (chunk_frame data) (py_range 0 n 128)) = (n + 127) div 128"
  by (simp add: chunk_addrs)

lemma to_frames_shape:
  assumes "checksum \<longrightarrow> is_bytes rest"
  shows "to_frames (d0 # rest) checksum run =
     Inr (create_frame SETUP [0xa5, 0xf1, 0] #
          map (chunk_frame (255 # rest)) (py_range 0 (Suc (length rest)) 128) @
          (if checksum
           then [create_frame VERIFY
                  [0, 0, int (length rest) div 256, int (length rest) mod 256,
                   uint (CRCCCITT_calculate (map word_of_int (255 # rest))) div 256,
                   uint (CRCCCITT_calculate (map word_of_int (255 # rest))) mod 256]]
           else []) @
          create_frame WRITE [0, 0, d0] # (if run then [create_frame RUN [0, 0]] else []),
          255 # rest)"
proof -
  let ?ck = "[uint (CRCCCITT_calculate (map word_of_int (255 # rest))) div 256,
              uint (CRCCCITT_calculate (map word_of_int (255 # rest))) mod 256]"
  have "checksum \<longrightarrow> crc (255 # rest) = Inr ?ck"
    using assms by (simp add: crc_cases)
  from to_frames_Cons [OF this] show ?thesis
    by (simp add: toaddr_div_mod)
qed

lemma to_frames_not_bytes:
  "\<not> is_bytes rest \<Longrightarrow> to_frames (d0 # rest) True run = Inl ValueError"
  by (simp add: to_frames_def Let_def crc_cases)

lemma chunk_in_range:
  assumes "k < (n + 127) div 128"
  shows "128 * k < (n::nat)"
  using assms by arith

subsection \<open>The loop over the lines\<close>

lemma data_record_not_special:
  assumes "py_slice line 7 9 = ''00''"
  shows "\<not> startswith line '':020000040000FA''"
    and "\<not> startswith line '':00000001FF''"
    and "line \<noteq> []"
proof -
  have t: "take 2 (drop 7 line) = ''00''"
    using assms by (simp add: py_slice_def)
  show "\<not> startswith line '':020000040000FA''"
  proof
    assume "startswith line '':020000040000FA''"
    moreover have "length '':020000040000FA'' = 15" by simp
    ultimately have "take 15 line = '':020000040000FA''" by (simp only: startswith_def)
    then have "take 2 (drop 7 (take 15 line)) = ''04''" by simp
    then have "take 2 (drop 7 line) = ''04''" by (simp add: drop_take)
    with t show False by simp
  qed
  show "\<not> startswith line '':00000001FF''"
  proof
    assume "startswith line '':00000001FF''"
    moreover have "length '':00000001FF'' = 11" by simp
    ultimately have "take 11 line = '':00000001FF''" by (simp only: startswith_def)
    then have "take 2 (drop 7 (take 11 line)) = ''01''" by simp
    then have "take 2 (drop 7 line) = ''01''" by (simp add: drop_take)
    with t show False by simp
  qed
  show "line \<noteq> []" using t by auto
qed






lemma read_lines_append:
  assumes "read_lines pre data address = Inr (Next, data', address')"
  shows "read_lines (pre @ post) data address = read_lines post data' address'"
  using assms
proof (induction pre arbitrary: data address)
  case Nil
  then show ?case by simp
next
  case (Cons line pre)
  then show ?case
    by (auto split: sum.splits ctl.splits)
qed

lemma read_intel_hex_raises:
  assumes "read_lines pre [] 0 = Inr (Next, data, address)"
    and "read_line line data address = Inl e"
  shows "read_intel_hex (pre @ line # post) = Inl e"
  using assms by (simp add: read_intel_hex_def read_lines_append)


lemma read_line_bad_checksum:
  assumes "hd line = CHR '':''" and "py_slice line 7 9 = ''00''"
    and "int16 (py_slice line 3 7) = Inr address"
    and "int16 (py_slice line 1 3) = Inr n"
    and "int16 (py_slice_int line (9 + n * 2) (9 + n * 2 + 2)) = Inr c"
    and "traverse (\<lambda>x. int16 (py_slice line x (x + 2))) (py_range 1 (nat (9 + n * 2)) 2) = Inr bs"
    and "record_checksum bs \<noteq> Inr c"
  shows "read_line line data address = Inl BadChecksum"
  using assms data_record_not_special [OF assms(2)]
  by (auto simp: read_line_def Let_def record_checksum_eq split: sum.splits)


subsection \<open>The loop over the frames\<close>

lemma hid_device_update:
  "(dev :: hid_device)\<lparr>sent := s, reads := r\<rparr> = \<lparr>sent = s, reads = r\<rparr>"
  by (cases dev) simp

lemma hid_device_eta: "\<lparr>sent = sent dev, reads = reads dev\<rparr> = (dev :: hid_device)"
  by (cases dev) simp

lemma send_reports:
  "foldl (\<lambda>d report. send_feature_report report d) dev rs =
     dev\<lparr>sent := sent dev @ rs\<rparr>"
  by (induction rs arbitrary: dev) (simp_all add: send_feature_report_def)

lemma send_frame_eq: "send_frame frame dev = dev\<lparr>sent := sent dev @ feature_reports frame\<rparr>"
  by (simp add: send_frame_def send_reports)

lemma flash_frames_Cons:
  "flash_frames replies (frame # frames) dev =
     (let dev' = \<lparr>sent = sent dev @ feature_reports frame, reads = Suc (reads dev)\<rparr> in
      if replies (reads dev) = [] then (Inl IndexError, dev')
      else if last (replies (reads dev)) \<noteq> 64 then
        (if length frame < 3 then (Inl IndexError, dev')
         else if frame ! 2 = VERIFY then (Inl BadChecksum, dev')
         else (Inl BadResponse, dev'))
      else flash_frames replies frames dev')"
  by (simp add: send_frame_eq get_feature_report_def Let_def hid_device_update)

lemma flash_frames_ok:
  assumes "\<forall>i<length frames. replies (reads dev + i) \<noteq> [] \<and> last (replies (reads dev + i)) = 64"
  shows "flash_frames replies frames dev =
     (Inr (), \<lparr>sent = sent dev @ concat (map feature_reports frames),
               reads = reads dev + length frames\<rparr>)"
  using assms
proof (induction frames arbitrary: dev)
  case Nil
  then show ?case by (simp add: hid_device_eta)
next
  case (Cons frame frames)
  let ?dev = "\<lparr>sent = sent dev @ feature_reports frame, reads = Suc (reads dev)\<rparr>"
  from Cons.prems have h: "replies (reads dev) \<noteq> [] \<and> last (replies (reads dev)) = 64"
    by force
  have "\<forall>i<length frames. replies (reads ?dev + i) \<noteq> [] \<and> last (replies (reads ?dev + i)) = 64"
  proof (intro allI impI)
    fix i assume "i < length frames"
    then have "Suc i < length (frame # frames)" by simp
    with Cons.prems have "replies (reads dev + Suc i) \<noteq> [] \<and> last (replies (reads dev + Suc i)) = 64"
      by blast
    then show "replies (reads ?dev + i) \<noteq> [] \<and> last (replies (reads ?dev + i)) = 64"
      by simp
  qed
  from Cons.IH [OF this] h show ?case
    by (simp add: flash_frames_Cons Let_def del: flash_frames.simps)
qed

lemma flash_frames_append:
  assumes "\<forall>i<length pre. replies (reads dev + i) \<noteq> [] \<and> last (replies (reads dev + i)) = 64"
  shows "flash_frames replies (pre @ post) dev =
     flash_frames replies post
       \<lparr>sent = sent dev @ concat (map feature_reports pre), reads = reads dev + length pre\<rparr>"
  using assms
proof (induction pre arbitrary: dev)
  case Nil
  then show ?case by (simp add: hid_device_eta)
next
  case (Cons frame pre)
  let ?dev = "\<lparr>sent = sent dev @ feature_reports frame, reads = Suc (reads dev)\<rparr>"
  from Cons.prems have h: "replies (reads dev) \<noteq> [] \<and> last (replies (reads dev)) = 64"
    by force
  have "\<forall>i<length pre. replies (reads ?dev + i) \<noteq> [] \<and> last (replies (reads ?dev + i)) = 64"
  proof (intro allI impI)
    fix i assume "i < length pre"
    then have "Suc i < length (frame # pre)" by simp
    with Cons.prems have "replies (reads dev + Suc i) \<noteq> [] \<and> last (replies (reads dev + Suc i)) = 64"
      by blast
    then show "replies (reads ?dev + i) \<noteq> [] \<and> last (replies (reads ?dev + i)) = 64"
      by simp
  qed
  from Cons.IH [OF this] h show ?case
    by (simp add: flash_frames_Cons Let_def del: flash_frames.simps)
qed

section \<open>The checksum of a record\<close>

text \<open>
  C9. For every width \<open>n \<ge> 1\<close> and every integer \<open>v\<close> (in particular every
  \<open>0 \<le> v < 2^n\<close>), \<open>twos_complement v n\<close>, that is
  \<open>((v & high_bit) - (v & ~high_bit)) mod 2^n\<close>, returns \<open>(2^n - v) mod 2^n\<close>, the
  negation of \<open>v\<close> modulo \<open>2^n\<close>. Hence for every list of bytes the record checksum is
  a byte, and the sum of the bytes plus the checksum is 0 modulo 256.
\<close>

theorem twos_complement_negates:
  "(1 \<le> n \<longrightarrow> twos_complement v n = Inr ((2 ^ nat n - v) mod 2 ^ nat n)) \<and>
   (\<exists>c. record_checksum bs = Inr c \<and> 0 \<le> c \<and> c < 256 \<and> (sum_list bs + c) mod 256 = 0)"
proof -
  let ?c = "(256 - sum_list bs mod 256) mod 256"
  have "(sum_list bs + ?c) mod 256 = (sum_list bs mod 256 + ?c mod 256) mod 256"
    by (simp only: mod_add_eq)
  also have "\<dots> = 0"
    by (simp add: mod_add_right_eq)
  finally have "(sum_list bs + ?c) mod 256 = 0" .
  then have "\<exists>c. record_checksum bs = Inr c \<and> 0 \<le> c \<and> c < 256 \<and> (sum_list bs + c) mod 256 = 0"
    by (simp add: record_checksum_eq)
  then show ?thesis
    by (simp add: twos_complement_eq)
qed

theorem twos_complement_negates_witness:
  "(1::int) \<le> 8 \<and> twos_complement 254 8 = Inr 2 \<and>
   record_checksum [1, 0, 1, 0, 0] = Inr 254 \<and> (sum_list [1, 0, 1, 0, 0] + 254) mod 256 = (0::int)"
  using twos_complement_negates [of 8 254 "[1, 0, 1, 0, 0]"]
  by (simp add: record_checksum_eq)

section \<open>The frames that \<open>to_frames\<close> builds\<close>

text \<open>
  In this section an image is a non-empty list of bytes (\<open>is_bytes\<close>); with
  \<open>checksum\<close> set, \<open>to_frames\<close> raises \<open>ValueError\<close> on a list with an element after
  the first that is not a byte.
\<close>

text \<open>
  C1, as amended. For every non-empty image of bytes, with verification requested,
  \<open>to_frames\<close> returns, and the frame after the chunk frames is the VERIFY frame whose
  payload is: two zero bytes, then \<open>(length - 1) >> 8\<close> and \<open>(length - 1) & 0xFF\<close> (the
  2-byte big-endian address of the last byte when the image has at most 65536 bytes),
  then the CRC, high byte first, of the image as \<open>to_frames\<close> has changed it: with the
  sentinel 0xFF as its first byte, not the true first byte.
\<close>

theorem verify_frame_payload:
  assumes "data \<noteq> []" and "is_bytes data"
  shows "\<exists>frames data'.
     to_frames data True run = Inr (frames, data') \<and>
     frames ! (1 + (length data + 127) div 128) =
       create_frame VERIFY
         [0, 0,
          (int (length data) - 1) div 256, (int (length data) - 1) mod 256,
          uint (CRCCCITT_calculate (map word_of_int (0xFF # tl data))) div 256,
          uint (CRCCCITT_calculate (map word_of_int (0xFF # tl data))) mod 256] \<and>
     (length data \<le> 65536 \<longrightarrow>
        0 \<le> (int (length data) - 1) div 256 \<and> (int (length data) - 1) div 256 < 256)"
proof -
  from assms(1) obtain d0 rest where data: "data = d0 # rest"
    by (cases data) auto
  have b: "True \<longrightarrow> is_bytes rest" using assms(2) data by (simp add: is_bytes_Cons)
  have n: "(length data + 127) div 128 =
      length (map (chunk_frame (255 # rest)) (py_range 0 (Suc (length rest)) 128))"
    unfolding chunks_length by (simp add: data)
  have r: "length rest \<le> 65535 \<longrightarrow>
      0 \<le> int (length rest) div 256 \<and> int (length rest) div 256 < 256"
    by auto
  show ?thesis
    unfolding data to_frames_shape [OF b] n [unfolded data]
    using r by (simp add: nth_append del: length_map)
qed

theorem verify_frame_payload_witness:
  "[0x12, 3 :: int] \<noteq> [] \<and> is_bytes [0x12, 3] \<and> length [0x12, 3 :: int] \<le> 65536 \<and>
   crc [0xFF, 3] = Inr [51, 156] \<and>
   fst (projr (to_frames [0x12, 3] True True)) ! 2 = [0x24, 7, VERIFY, 0, 0, 0, 1, 51, 156]"
proof -
  have h1: "[0x12, 3 :: int] \<noteq> []" by simp
  have h2: "is_bytes [0x12, 3]" by (simp add: is_bytes_def)
  have c: "uint (CRCCCITT_calculate (map word_of_int [255, 3])) = 13212" by code_simp
  have c': "crc [0xFF, 3] = Inr [51, 156]" by code_simp
  from verify_frame_payload [OF h1 h2, of True] c c' h2 show ?thesis
    by (auto simp: create_frame_def numeral_2_eq_2)
qed

text \<open>
  The claim as stated fails on the image \<open>[0x12]\<close>: the CRC in the VERIFY frame is
  0x1EF0, the CRC of \<open>[0xFF]\<close>, and the CRC of the image itself is 0x3273.
\<close>

theorem verify_crc_counterexample:
  "to_frames [0x12] True True =
     Inr ([[0x24, 4, SETUP, 0xA5, 0xF1, 0], [0x24, 4, ERASE, 0, 0, 0xFF],
           [0x24, 7, VERIFY, 0, 0, 0, 0, 0x1E, 0xF0], [0x24, 4, WRITE, 0, 0, 0x12],
           [0x24, 3, RUN, 0, 0]], [0xFF]) \<and>
   crc [0x12] = Inr [0x32, 0x73] \<and>
   [0x24, 7, VERIFY, 0, 0, 0, 0, 0x1E, 0xF0] \<noteq>
     create_frame VERIFY ([0, 0] @ toaddr 0 @ [0x32, 0x73])"
  by code_simp

text \<open>
  C2, as amended. For every non-empty image, when \<open>to_frames\<close> returns, the caller's
  list is the image with its first byte replaced by the sentinel 0xFF: the length and
  every other byte are unchanged, the substitution is not reversed, and the list equals
  the original image only when the first byte was 0xFF already.
\<close>

theorem image_after_to_frames:
  assumes "data \<noteq> []" and "checksum \<longrightarrow> is_bytes data"
  shows "\<exists>frames data'.
     to_frames data checksum run = Inr (frames, data') \<and>
     data' = 0xFF # tl data \<and>
     length data' = length data \<and>
     (\<forall>i. 0 < i \<and> i < length data \<longrightarrow> data' ! i = data ! i) \<and>
     (data' = data \<longleftrightarrow> hd data = 0xFF)"
proof -
  from assms(1) obtain d0 rest where data: "data = d0 # rest"
    by (cases data) auto
  have b: "checksum \<longrightarrow> is_bytes rest" using assms(2) data by (auto simp: is_bytes_Cons)
  have "\<forall>i. 0 < i \<and> i < length data \<longrightarrow> (255 # rest) ! i = data ! i"
    by (auto simp: data nth_Cons')
  then show ?thesis
    unfolding data to_frames_shape [OF b] by auto
qed

theorem image_after_to_frames_witness:
  "[0x12, 0x34 :: int] \<noteq> [] \<and> is_bytes [0x12, 0x34] \<and>
   snd (projr (to_frames [0x12, 0x34] True True)) = [0xFF, 0x34]"
proof -
  have h1: "[0x12, 0x34 :: int] \<noteq> []" by simp
  have h2: "True \<longrightarrow> is_bytes [0x12, 0x34]" by (simp add: is_bytes_def)
  from image_after_to_frames [OF h1 h2, of True] h2 show ?thesis
    by auto
qed

text \<open>
  The claim as stated fails on the image \<open>[0x12, 0x34]\<close>, which \<open>to_frames\<close> leaves as
  \<open>[0xFF, 0x34]\<close>.
\<close>

theorem image_mutated_counterexample:
  "to_frames [0x12, 0x34] False False =
     Inr ([[0x24, 4, SETUP, 0xA5, 0xF1, 0], [0x24, 5, ERASE, 0, 0, 0xFF, 0x34],
           [0x24, 4, WRITE, 0, 0, 0x12]], [0xFF, 0x34]) \<and>
   [0xFF, 0x34] \<noteq> [0x12, 0x34 :: int]"
  by code_simp

text \<open>
  C4, as amended. For every image of length \<open>N \<ge> 1\<close>, the frames after SETUP are
  \<open>ceil(N/128)\<close> chunk frames, followed only by the optional VERIFY, the final WRITE and
  the optional RUN. The \<open>k\<close>-th chunk frame, for the address \<open>128 * k < N\<close>, is an ERASE
  frame if the address is a multiple of 512 and a WRITE frame otherwise; its payload is
  \<open>addr >> 8\<close>, \<open>addr & 0xFF\<close> and then the at most 128 bytes from that address on of the
  image with the sentinel as first byte, \<open>min 128 (N - addr)\<close> of them. The two address
  elements are the 2-byte big-endian address when \<open>N \<le> 65536\<close>.
\<close>

theorem chunk_frames:
  assumes "data \<noteq> []" and "checksum \<longrightarrow> is_bytes data"
  shows "\<exists>frames data' chunks rest.
     to_frames data checksum run = Inr (frames, data') \<and>
     frames = create_frame SETUP [0xA5, 0xF1, 0x00] # chunks @ rest \<and>
     length rest = (if checksum then 1 else 0) + 1 + (if run then 1 else 0) \<and>
     length chunks = (length data + 127) div 128 \<and>
     (\<forall>k<length chunks.
        chunks ! k =
          create_frame (if (128 * k) mod 512 = 0 then ERASE else WRITE)
            ([int (128 * k) div 256, int (128 * k) mod 256] @
             take 128 (drop (128 * k) (0xFF # tl data))) \<and>
        length (take 128 (drop (128 * k) (0xFF # tl data))) = min 128 (length data - 128 * k) \<and>
        128 * k < length data \<and>
        (length data \<le> 65536 \<longrightarrow> int (128 * k) div 256 < 256))"
proof -
  from assms(1) obtain d0 rest where data: "data = d0 # rest"
    by (cases data) auto
  have b: "checksum \<longrightarrow> is_bytes rest" using assms(2) data by (auto simp: is_bytes_Cons)
  let ?chunks = "map (chunk_frame (255 # rest)) (py_range 0 (Suc (length rest)) 128)"
  let ?rest = "(if checksum
           then [create_frame VERIFY
                  [0, 0, int (length rest) div 256, int (length rest) mod 256,
                   uint (CRCCCITT_calculate (map word_of_int (255 # rest))) div 256,
                   uint (CRCCCITT_calculate (map word_of_int (255 # rest))) mod 256]]
           else []) @
          create_frame WRITE [0, 0, d0] # (if run then [create_frame RUN [0, 0]] else [])"
  have len: "length ?chunks = (length data + 127) div 128"
    unfolding chunks_length by (simp add: data)
  have each: "?chunks ! k =
          create_frame (if (128 * k) mod 512 = 0 then ERASE else WRITE)
            ([int (128 * k) div 256, int (128 * k) mod 256] @
             take 128 (drop (128 * k) (0xFF # tl data))) \<and>
        length (take 128 (drop (128 * k) (0xFF # tl data))) = min 128 (length data - 128 * k) \<and>
        128 * k < length data \<and>
        (length data \<le> 65536 \<longrightarrow> int (128 * k) div 256 < 256)"
    if k: "k < length ?chunks" for k
  proof -
    have k': "k < (Suc (length rest) + 127) div 128"
      using k unfolding chunks_length .
    have lt: "128 * k < length data"
      using chunk_in_range [OF k'] by (simp add: data)
    have "?chunks ! k = chunk_frame (255 # rest) (128 * k)"
      using k' by (rule chunks_nth)
    moreover have "length data \<le> 65536 \<longrightarrow> int (128 * k) div 256 < 256"
      using lt by auto
    ultimately show ?thesis
      using lt by (simp add: chunk_frame_eq data del: drop_Cons_numeral take_Cons_numeral)
  qed
  have "to_frames data checksum run =
      Inr (create_frame SETUP [0xA5, 0xF1, 0x00] # ?chunks @ ?rest, 255 # rest)"
    unfolding data to_frames_shape [OF b] by simp
  moreover have "length ?rest = (if checksum then 1 else 0) + 1 + (if run then 1 else 0)"
    by simp
  ultimately show ?thesis
    using len each by blast
qed

theorem chunk_frames_witness:
  "0x12 # replicate 299 (7::int) \<noteq> [] \<and> length (0x12 # replicate 299 (7::int)) \<le> 65536 \<and>
   length (fst (projr (to_frames (0x12 # replicate 299 7) False True))) = 1 + 3 + 2 \<and>
   fst (projr (to_frames (0x12 # replicate 299 7) False True)) ! 1 =
     create_frame ERASE ([0, 0] @ 0xFF # replicate 127 7) \<and>
   fst (projr (to_frames (0x12 # replicate 299 7) False True)) ! 2 =
     create_frame WRITE ([0, 128] @ replicate 128 7) \<and>
   fst (projr (to_frames (0x12 # replicate 299 7) False True)) ! 3 =
     create_frame WRITE ([1, 0] @ replicate 44 7)"
proof -
  have h1: "0x12 # replicate 299 (7::int) \<noteq> []" by simp
  have h2: "False \<longrightarrow> is_bytes (0x12 # replicate 299 7)" by simp
  from chunk_frames [OF h1 h2, of True]
  obtain frames data' chunks rest where
    tf: "to_frames (0x12 # replicate 299 7) False True = Inr (frames, data')" and
    fr: "frames = create_frame SETUP [0xA5, 0xF1, 0x00] # chunks @ rest" and
    lr: "length rest = 2" and
    lc: "length chunks = 3" and
    ch: "\<forall>k<length chunks.
        chunks ! k =
          create_frame (if (128 * k) mod 512 = 0 then ERASE else WRITE)
            ([int (128 * k) div 256, int (128 * k) mod 256] @
             take 128 (drop (128 * k) (0xFF # tl (0x12 # replicate 299 7))))"
    by auto
  have c0: "chunks ! 0 = create_frame ERASE ([0, 0] @ 0xFF # replicate 127 7)"
    using ch lc by simp
  have c1: "chunks ! 1 = create_frame WRITE ([0, 128] @ replicate 128 7)"
    using ch [rule_format, of 1] lc by simp
  have c2: "chunks ! 2 = create_frame WRITE ([1, 0] @ replicate 44 7)"
    using ch [rule_format, of 2] lc by simp
  have "frames ! 1 = chunks ! 0" "frames ! 2 = chunks ! 1" "frames ! 3 = chunks ! 2"
    using lc by (simp_all add: fr nth_append)
  then show ?thesis
    using tf lr lc c0 c1 c2 by (simp add: fr)
qed

text \<open>
  The claim as stated fails on an image of 65537 bytes: the chunk frame for the address
  65536 carries 256 as the high element of its address, which is no byte
  (\<open>toaddr\<close> does not check that the address has 16 bits).
\<close>

theorem chunk_address_counterexample:
  "fst (projr (to_frames (replicate 65537 7) False False)) ! 513 =
     [0x24, 4, ERASE, 256, 0, 7]"
proof -
  have r: "replicate 65537 (7::int) = 7 # replicate 65536 7"
    by (simp only: replicate_Suc [symmetric]) simp
  have t: "to_frames (7 # replicate 65536 7) False False =
     Inr (create_frame SETUP [0xa5, 0xf1, 0] #
          map (chunk_frame (255 # replicate 65536 7)) (py_range 0 65537 128) @
          [create_frame WRITE [0, 0, 7]], 255 # replicate 65536 7)"
    using to_frames_Cons [of False "replicate 65536 7" "[]" 7 False] by simp
  have k: "(512::nat) < (65537 + 127) div 128" by simp
  have l: "length (map (chunk_frame (255 # replicate 65536 7)) (py_range 0 65537 128)) = 513"
    unfolding chunks_length by simp
  have "(create_frame SETUP [0xa5, 0xf1, 0] #
          map (chunk_frame (255 # replicate 65536 7)) (py_range 0 65537 128) @
          [create_frame WRITE [0, 0, 7]]) ! 513 =
        map (chunk_frame (255 # replicate 65536 7)) (py_range 0 65537 128) ! 512"
    using l by (simp add: nth_append del: length_map)
  also have "\<dots> = chunk_frame (255 # replicate 65536 7) (128 * 512)"
    using k by (rule chunks_nth)
  also have "\<dots> = [0x24, 4, ERASE, 256, 0, 7]"
    by (simp add: chunk_frame_def toaddr_div_mod py_slice_def create_frame_def)
  finally show ?thesis
    by (simp add: r t)
qed

text \<open>
  C5. For every non-empty image, \<open>to_frames\<close> returns a list of frames whose first frame
  is the SETUP frame with the payload \<open>[0xA5, 0xF1, 0x00]\<close>, and which ends with the WRITE
  frame of payload \<open>[0, 0, original first byte]\<close>, followed by the RUN frame of payload
  \<open>[0, 0]\<close> if and only if \<open>run\<close> is set.
\<close>

theorem first_and_last_frames:
  assumes "data \<noteq> []" and "checksum \<longrightarrow> is_bytes data"
  shows "\<exists>frames data' body.
     to_frames data checksum run = Inr (frames, data') \<and>
     frames = [0x24, 4, SETUP, 0xA5, 0xF1, 0x00] # body @
              [0x24, 4, WRITE, 0, 0, hd data] # (if run then [[0x24, 3, RUN, 0, 0]] else []) \<and>
     create_frame SETUP [0xA5, 0xF1, 0x00] = [0x24, 4, SETUP, 0xA5, 0xF1, 0x00] \<and>
     create_frame WRITE [0, 0, hd data] = [0x24, 4, WRITE, 0, 0, hd data] \<and>
     create_frame RUN [0, 0] = [0x24, 3, RUN, 0, 0]"
proof -
  from assms(1) obtain d0 rest where data: "data = d0 # rest"
    by (cases data) auto
  have b: "checksum \<longrightarrow> is_bytes rest" using assms(2) data by (auto simp: is_bytes_Cons)
  show ?thesis
    unfolding data to_frames_shape [OF b]
    by (simp add: create_frame_def)
qed

theorem first_and_last_frames_witness:
  "[0x12, 0x34 :: int] \<noteq> [] \<and> is_bytes [0x12, 0x34] \<and>
   hd (fst (projr (to_frames [0x12, 0x34] True True))) = [0x24, 4, 0x31, 0xA5, 0xF1, 0x00] \<and>
   last (fst (projr (to_frames [0x12, 0x34] True True))) = [0x24, 3, 0x36, 0, 0] \<and>
   last (butlast (fst (projr (to_frames [0x12, 0x34] True True)))) = [0x24, 4, 0x33, 0, 0, 0x12] \<and>
   last (fst (projr (to_frames [0x12, 0x34] True False))) = [0x24, 4, 0x33, 0, 0, 0x12]"
proof -
  have h1: "[0x12, 0x34 :: int] \<noteq> []" by simp
  have h2: "True \<longrightarrow> is_bytes [0x12, 0x34]" by (simp add: is_bytes_def)
  from first_and_last_frames [OF h1 h2, of True] first_and_last_frames [OF h1 h2, of False] h2
  show ?thesis
    by (auto simp: SETUP_def WRITE_def RUN_def butlast_append)
qed

text \<open>
  C6. For every non-empty image, the frame list is \<open>pre\<close>, then the final WRITE frame
  with payload \<open>[0, 0, true first byte]\<close>, then the optional RUN frame. The second frame
  is chunk 0's ERASE frame, for address 0, and its data byte for address 0 is the
  sentinel 0xFF. The frames \<open>pre\<close> before the final WRITE, and the RUN frame after it, do
  not carry the true first byte: they are the same frames whatever the first byte of the
  image is, and only the payload of the final WRITE changes with it.
\<close>

theorem sentinel_at_address_zero:
  assumes "data \<noteq> []" and "checksum \<longrightarrow> is_bytes data"
  shows "\<exists>pre post data'.
     to_frames data checksum run = Inr (pre @ create_frame WRITE [0, 0, hd data] # post, data') \<and>
     post = (if run then [create_frame RUN [0, 0]] else []) \<and>
     2 \<le> length pre \<and>
     pre ! 1 = create_frame ERASE ([0, 0] @ 0xFF # take 127 (tl data)) \<and>
     pre ! 1 ! 5 = 0xFF \<and>
     (\<forall>d. \<exists>data''.
        to_frames (d # tl data) checksum run =
          Inr (pre @ create_frame WRITE [0, 0, d] # post, data''))"
proof -
  from assms(1) obtain d0 rest where data: "data = d0 # rest"
    by (cases data) auto
  have b: "checksum \<longrightarrow> is_bytes rest" using assms(2) data by (auto simp: is_bytes_Cons)
  let ?chunks = "map (chunk_frame (255 # rest)) (py_range 0 (Suc (length rest)) 128)"
  let ?verify = "(if checksum
           then [create_frame VERIFY
                  [0, 0, int (length rest) div 256, int (length rest) mod 256,
                   uint (CRCCCITT_calculate (map word_of_int (255 # rest))) div 256,
                   uint (CRCCCITT_calculate (map word_of_int (255 # rest))) mod 256]]
           else [])"
  let ?pre = "create_frame SETUP [0xa5, 0xf1, 0] # ?chunks @ ?verify"
  let ?post = "if run then [create_frame RUN [0, 0]] else []"
  have shape: "to_frames (d # rest) checksum run =
      Inr (?pre @ create_frame WRITE [0, 0, d] # ?post, 255 # rest)" for d
    unfolding to_frames_shape [OF b] by simp
  have pos: "0 < (Suc (length rest) + 127) div 128"
    by arith
  have c0: "?chunks ! 0 = chunk_frame (255 # rest) (128 * 0)"
    using pos by (rule chunks_nth)
  have ne: "0 < length ?chunks"
    unfolding chunks_length using pos .
  have "length ?pre = Suc (length ?chunks + length ?verify)"
    by (simp only: length_Cons length_append)
  then have l: "2 \<le> length ?pre"
    using ne by linarith
  have "?pre ! 1 = (?chunks @ ?verify) ! 0"
    by simp
  also have "\<dots> = ?chunks ! 0"
    using ne by (simp only: nth_append if_True)
  finally have p1: "?pre ! 1 = ?chunks ! 0" .
  have e: "?chunks ! 0 = create_frame ERASE ([0, 0] @ 0xFF # take 127 rest)"
    unfolding c0 by (simp add: chunk_frame_def toaddr_div_mod py_slice_def)
  have "?pre ! 1 ! 5 = 0xFF"
    unfolding p1 e by (simp add: create_frame_def)
  with shape l p1 e show ?thesis
    unfolding data by (intro exI [of _ ?pre] exI [of _ ?post] exI [of _ "255 # rest"]) simp
qed

theorem sentinel_at_address_zero_witness:
  "[0x12, 0x34 :: int] \<noteq> [] \<and> is_bytes [0x12, 0x34] \<and>
   fst (projr (to_frames [0x12, 0x34] True True)) =
     [[0x24, 4, 0x31, 0xA5, 0xF1, 0], [0x24, 5, 0x32, 0, 0, 0xFF, 0x34],
      [0x24, 7, 0x34, 0, 0, 0, 1, 0x75, 0x28], [0x24, 4, 0x33, 0, 0, 0x12], [0x24, 3, 0x36, 0, 0]] \<and>
   fst (projr (to_frames [0x99, 0x34] True True)) =
     [[0x24, 4, 0x31, 0xA5, 0xF1, 0], [0x24, 5, 0x32, 0, 0, 0xFF, 0x34],
      [0x24, 7, 0x34, 0, 0, 0, 1, 0x75, 0x28], [0x24, 4, 0x33, 0, 0, 0x99], [0x24, 3, 0x36, 0, 0]]"
proof -
  have h1: "[0x12, 0x34 :: int] \<noteq> []" by simp
  have h2: "True \<longrightarrow> is_bytes [0x12, 0x34]" by (simp add: is_bytes_def)
  have e: "to_frames [0x12, 0x34] True True =
     Inr ([[0x24, 4, 0x31, 0xA5, 0xF1, 0], [0x24, 5, 0x32, 0, 0, 0xFF, 0x34],
      [0x24, 7, 0x34, 0, 0, 0, 1, 0x75, 0x28], [0x24, 4, 0x33, 0, 0, 0x12], [0x24, 3, 0x36, 0, 0]],
      [0xFF, 0x34])"
    by code_simp
  from sentinel_at_address_zero [OF h1 h2, of True]
  obtain pre post data' where
    a: "to_frames [0x12, 0x34] True True =
          Inr (pre @ create_frame WRITE [0, 0, 0x12] # post, data')" and
    p: "post = [create_frame RUN [0, 0]]" and
    b: "\<forall>d. \<exists>data''. to_frames (d # [0x34]) True True =
          Inr (pre @ create_frame WRITE [0, 0, d] # post, data'')"
    by auto
  have "fst (projr (to_frames [0x12, 0x34] True True)) =
      pre @ create_frame WRITE [0, 0, 0x12] # post"
    by (simp add: a)
  then have "pre @ create_frame WRITE [0, 0, 0x12] # post =
      [[0x24, 4, 0x31, 0xA5, 0xF1, 0], [0x24, 5, 0x32, 0, 0, 0xFF, 0x34],
       [0x24, 7, 0x34, 0, 0, 0, 1, 0x75, 0x28]] @ create_frame WRITE [0, 0, 0x12] # post"
    unfolding p e by (simp add: create_frame_def WRITE_def RUN_def)
  then have pre: "pre = [[0x24, 4, 0x31, 0xA5, 0xF1, 0], [0x24, 5, 0x32, 0, 0, 0xFF, 0x34],
      [0x24, 7, 0x34, 0, 0, 0, 1, 0x75, 0x28]]"
    by (simp only: append_same_eq)
  from b [rule_format, of "0x99"] pre p h2 e show ?thesis
    by (auto simp: create_frame_def WRITE_def RUN_def)
qed

section \<open>The image that \<open>read_intel_hex\<close> returns\<close>

text \<open>
  In this section the parser has reached \<open>line\<close> when the loop has run over the lines
  \<open>pre\<close> before it without an exception and without the end-of-file record:
  \<open>read_lines pre [] 0 = Inr (Next, data, address)\<close>, with the bytes \<open>data\<close> accepted so far
  and the running address \<open>address\<close>, which each accepted record advances by its byte
  count. A data record is a line that begins with a colon and whose type field
  \<open>line[7:9]\<close> is \<open>00\<close>.
\<close>

text \<open>
  C7, as amended. When the parser reaches a data record whose load address equals the
  running address, whose byte count, checksum field and byte fields \<open>int\<close> reads, and
  whose embedded checksum value is not the \<open>record_checksum\<close> of the values before it
  in the record (length field, address, type, data), parsing raises \<open>BadChecksum\<close> and
  returns no image, whatever lines follow. (The checks of the record type and of the
  address come first.)
\<close>

theorem bad_record_checksum_rejected:
  assumes "read_lines pre [] 0 = Inr (Next, data, address)"
    and "hd line = CHR '':''" and "py_slice line 7 9 = ''00''"
    and "int16 (py_slice line 3 7) = Inr address"
    and "int16 (py_slice line 1 3) = Inr n"
    and "int16 (py_slice_int line (9 + n * 2) (9 + n * 2 + 2)) = Inr c"
    and "traverse (\<lambda>x. int16 (py_slice line x (x + 2))) (py_range 1 (nat (9 + n * 2)) 2) = Inr bs"
    and "record_checksum bs \<noteq> Inr c"
  shows "read_intel_hex (pre @ line # post) = Inl BadChecksum"
proof -
  have "read_line line data address = Inl BadChecksum"
    using assms(2-8) by (rule read_line_bad_checksum)
  with assms(1) show ?thesis
    by (rule read_intel_hex_raises)
qed

theorem bad_record_checksum_rejected_witness:
  "read_lines ['':02000000AABB99''] [] 0 = Inr (Next, [0xAA, 0xBB], 2) \<and>
   hd '':02000200CCDD54'' = CHR '':'' \<and> py_slice '':02000200CCDD54'' 7 9 = ''00'' \<and>
   int16 (py_slice '':02000200CCDD54'' 3 7) = Inr 2 \<and>
   int16 (py_slice '':02000200CCDD54'' 1 3) = Inr 2 \<and>
   int16 (py_slice_int '':02000200CCDD54'' 13 15) = Inr 0x54 \<and>
   record_checksum [2, 0, 2, 0, 0xCC, 0xDD] = Inr 0x53 \<and>
   read_intel_hex ['':02000000AABB99'', '':02000200CCDD54'', '':00000001FF''] = Inl BadChecksum \<and>
   int16 (py_slice_int '':0100000012E\<newline>'' 11 13) = Inr 0x0E \<and>
   record_checksum [1, 0, 0, 0, 0x12] = Inr 0xED \<and>
   read_intel_hex ['':0100000012E\<newline>''] = Inl BadChecksum"
proof -
  have h1: "read_lines ['':02000000AABB99''] [] 0 = Inr (Next, [0xAA, 0xBB], 2)"
    by code_simp
  have h2: "hd '':02000200CCDD54'' = CHR '':''" by simp
  have h3: "py_slice '':02000200CCDD54'' 7 9 = ''00''" by code_simp
  have h4: "int16 (py_slice '':02000200CCDD54'' 3 7) = Inr 2" by code_simp
  have h5: "int16 (py_slice '':02000200CCDD54'' 1 3) = Inr 2" by code_simp
  have h6: "int16 (py_slice_int '':02000200CCDD54'' (9 + 2 * 2) (9 + 2 * 2 + 2)) = Inr 0x54"
    by code_simp
  have h7: "traverse (\<lambda>x. int16 (py_slice '':02000200CCDD54'' x (x + 2)))
      (py_range 1 (nat (9 + 2 * 2)) 2) = Inr [2, 0, 2, 0, 0xCC, 0xDD]"
    by code_simp
  have h8: "record_checksum [2, 0, 2, 0, 0xCC, 0xDD] \<noteq> Inr 0x54"
    by (simp add: record_checksum_eq)
  have c: "record_checksum [2, 0, 2, 0, 0xCC, 0xDD] = Inr 0x53"
    by (simp add: record_checksum_eq)
  have g1: "read_lines [] [] 0 = Inr (Next, [], 0)" by simp
  have g2: "hd '':0100000012E\<newline>'' = CHR '':''" by simp
  have g3: "py_slice '':0100000012E\<newline>'' 7 9 = ''00''" by code_simp
  have g4: "int16 (py_slice '':0100000012E\<newline>'' 3 7) = Inr 0" by code_simp
  have g5: "int16 (py_slice '':0100000012E\<newline>'' 1 3) = Inr 1" by code_simp
  have g6: "int16 (py_slice_int '':0100000012E\<newline>'' (9 + 1 * 2) (9 + 1 * 2 + 2)) = Inr 0x0E"
    by code_simp
  have g7: "traverse (\<lambda>x. int16 (py_slice '':0100000012E\<newline>'' x (x + 2)))
      (py_range 1 (nat (9 + 1 * 2)) 2) = Inr [1, 0, 0, 0, 0x12]"
    by code_simp
  have g8: "record_checksum [1, 0, 0, 0, 0x12] \<noteq> Inr 0x0E"
    by (simp add: record_checksum_eq)
  have d: "record_checksum [1, 0, 0, 0, 0x12] = Inr 0xED"
    by (simp add: record_checksum_eq)
  have "int16 (py_slice_int '':02000200CCDD54'' 13 15) = Inr 0x54" using h6 by simp
  moreover have "int16 (py_slice_int '':0100000012E\<newline>'' 11 13) = Inr 0x0E" using g6 by simp
  moreover note bad_record_checksum_rejected [OF h1 h2 h3 h4 h5 h6 h7 h8, of "['':00000001FF'']"]
    bad_record_checksum_rejected [OF g1 g2 g3 g4 g5 g6 g7 g8, of "[]"]
  ultimately show ?thesis
    using h1 h2 h3 h4 h5 c d by simp
qed

text \<open>
  The claim as stated fails on the single record \<open>:0100010000FF\<close>: its checksum byte is
  0xFF where the bytes 01 00 01 00 00 give 0xFE, and parsing raises \<open>Unsupported\<close>,
  because the load address 1 is not the running address 0 and that check comes first.
\<close>

theorem checksum_precedence_counterexample:
  "read_intel_hex ['':0100010000FF''] = Inl Unsupported \<and>
   int16 ''01'' = Inr 0x01 \<and> int16 ''0001'' = Inr 0x0001 \<and> int16 ''00'' = Inr 0x00 \<and>
   int16 ''FF'' = Inr 0xFF \<and>
   record_checksum [0x01, 0x00, 0x01, 0x00, 0x00] = Inr 0xFE"
  by code_simp




text \<open>
  C10. On the empty image \<open>to_frames\<close> raises \<open>IndexError\<close> (from \<open>data[0]\<close>) and returns
  no frames. Every image that \<open>read_intel_hex\<close> returns is non-empty, because a loop that
  ends with no bytes makes it raise \<open>Unsupported\<close>; so \<open>to_frames\<close> never raises
  \<open>IndexError\<close> on an image that the parser has returned.
\<close>

theorem to_frames_empty_unreachable:
  "to_frames [] checksum run = Inl IndexError \<and>
   (\<forall>data. read_intel_hex lines = Inr data \<longrightarrow>
      data \<noteq> [] \<and> to_frames data checksum run \<noteq> Inl IndexError) \<and>
   (\<forall>c address. read_lines lines [] 0 = Inr (c, [], address) \<longrightarrow>
      read_intel_hex lines = Inl Unsupported)"
proof -
  have e: "to_frames [] checksum run = Inl IndexError"
    by (simp add: to_frames_def)
  have n: "to_frames data checksum run \<noteq> Inl IndexError" if "data \<noteq> []" for data
  proof -
    from that obtain d0 rest where data: "data = d0 # rest" by (cases data) auto
    show ?thesis
    proof (cases "checksum \<longrightarrow> is_bytes rest")
      case True
      from to_frames_shape [OF this] show ?thesis by (simp add: data)
    next
      case False
      then show ?thesis by (simp add: data to_frames_not_bytes)
    qed
  qed
  have p: "data \<noteq> []" if "read_intel_hex lines = Inr data" for data
    using that by (auto simp: read_intel_hex_def split: sum.splits if_splits)
  have u: "read_intel_hex lines = Inl Unsupported"
    if "read_lines lines [] 0 = Inr (c, [], address)" for c address
    using that by (simp add: read_intel_hex_def)
  from e n p u show ?thesis by blast
qed

theorem to_frames_empty_unreachable_witness:
  "to_frames [] True True = Inl IndexError \<and>
   read_intel_hex ['':0100000012ED''] = Inr [0x12] \<and>
   to_frames [0x12] True True \<noteq> Inl IndexError \<and>
   read_lines [] [] 0 = Inr (Next, [], 0) \<and>
   read_intel_hex [] = Inl Unsupported"
proof -
  have p: "read_intel_hex ['':0100000012ED''] = Inr [0x12]" by code_simp
  have q: "read_lines [] [] 0 = Inr (Next, [], 0)" by simp
  from to_frames_empty_unreachable [of True True "['':0100000012ED'']"]
    to_frames_empty_unreachable [of True True "[]"] p q
  show ?thesis by simp
qed

section \<open>The session with the bootloader\<close>

text \<open>
  C3. Let the first \<open>k\<close> frames be acknowledged with 64 (the last byte of the report
  read after each of them). If these are all the frames, \<open>flash\<close> returns normally,
  having sent every frame and read one report per frame. If frame \<open>k\<close> is acknowledged
  with any other byte, \<open>flash\<close> raises \<open>BadChecksum\<close> when that frame is a VERIFY frame
  (\<open>frame[2] == VERIFY\<close>) and \<open>BadResponse\<close> otherwise, and the device has been sent the
  reports of the frames up to frame \<open>k\<close> only and has been read \<open>k + 1\<close> times: no frame
  after the failing one is sent. Every frame that \<open>create_frame\<close> builds has at least
  three elements, with its command at index 2.
\<close>

theorem flash_acknowledgements:
  assumes "k \<le> length frames"
    and "\<forall>i<k. replies i \<noteq> [] \<and> last (replies i) = 64"
  shows "(k = length frames \<longrightarrow>
            flash replies frames =
              (Inr (), \<lparr>sent = concat (map feature_reports frames), reads = length frames\<rparr>)) \<and>
         (k < length frames \<and> replies k \<noteq> [] \<and> last (replies k) \<noteq> 64 \<and>
          3 \<le> length (frames ! k) \<longrightarrow>
            flash replies frames =
              (Inl (if frames ! k ! 2 = VERIFY then BadChecksum else BadResponse),
               \<lparr>sent = concat (map feature_reports (take (Suc k) frames)), reads = Suc k\<rparr>)) \<and>
         3 \<le> length (create_frame cmd payload) \<and> create_frame cmd payload ! 2 = cmd"
proof (intro conjI impI)
  assume "k = length frames"
  with assms(2) show "flash replies frames =
      (Inr (), \<lparr>sent = concat (map feature_reports frames), reads = length frames\<rparr>)"
    by (simp add: flash_def flash_frames_ok)
next
  assume a: "k < length frames \<and> replies k \<noteq> [] \<and> last (replies k) \<noteq> 64 \<and>
      3 \<le> length (frames ! k)"
  define pre where "pre = take k frames"
  define post where "post = drop (Suc k) frames"
  have fr: "frames = pre @ frames ! k # post"
    using a by (simp add: pre_def post_def id_take_nth_drop)
  have lp: "length pre = k"
    using a by (simp add: pre_def)
  have tk: "take (Suc k) frames = pre @ [frames ! k]"
    using a by (simp add: pre_def take_Suc_conv_app_nth)
  let ?dev = "\<lparr>sent = [], reads = 0\<rparr>"
  have "\<forall>i<length pre. replies (reads ?dev + i) \<noteq> [] \<and> last (replies (reads ?dev + i)) = 64"
    using assms(2) lp by simp
  from flash_frames_append [OF this, of "frames ! k # post"]
  have "flash replies frames =
      flash_frames replies (frames ! k # post)
        \<lparr>sent = concat (map feature_reports pre), reads = k\<rparr>"
    unfolding flash_def using fr lp by simp
  also have "\<dots> = (Inl (if frames ! k ! 2 = VERIFY then BadChecksum else BadResponse),
               \<lparr>sent = concat (map feature_reports (take (Suc k) frames)), reads = Suc k\<rparr>)"
    using a by (simp add: flash_frames_Cons Let_def tk del: flash_frames.simps)
  finally show "flash replies frames =
      (Inl (if frames ! k ! 2 = VERIFY then BadChecksum else BadResponse),
       \<lparr>sent = concat (map feature_reports (take (Suc k) frames)), reads = Suc k\<rparr>)" .
next
  show "3 \<le> length (create_frame cmd payload)"
    by (simp add: create_frame_def)
next
  show "create_frame cmd payload ! 2 = cmd"
    by (simp add: create_frame_def)
qed

theorem flash_acknowledgements_witness:
  "flash (\<lambda>k. if k = 2 then [0, 3] else [0, 64])
     [[0x24, 4, 0x31, 0xA5, 0xF1, 0], [0x24, 4, 0x32, 0, 0, 0xFF],
      [0x24, 7, 0x34, 0, 0, 0, 0, 0x1E, 0xF0], [0x24, 4, 0x33, 0, 0, 0x12], [0x24, 3, 0x36, 0, 0]] =
     (Inl BadChecksum,
      \<lparr>sent = [[0, 0x24, 4, 0x31, 0xA5, 0xF1, 0], [0, 0x24, 4, 0x32, 0, 0, 0xFF],
               [0, 0x24, 7, 0x34, 0, 0, 0, 0, 0x1E, 0xF0]],
       reads = 3\<rparr>) \<and>
   flash (\<lambda>k. [0, 64])
     [[0x24, 4, 0x31, 0xA5, 0xF1, 0], [0x24, 4, 0x32, 0, 0, 0xFF], [0x24, 4, 0x33, 0, 0, 0x12]] =
     (Inr (),
      \<lparr>sent = [[0, 0x24, 4, 0x31, 0xA5, 0xF1, 0], [0, 0x24, 4, 0x32, 0, 0, 0xFF],
               [0, 0x24, 4, 0x33, 0, 0, 0x12]],
       reads = 3\<rparr>)"
proof -
  let ?frames = "[[0x24, 4, 0x31, 0xA5, 0xF1, 0], [0x24, 4, 0x32, 0, 0, 0xFF],
      [0x24, 7, 0x34, 0, 0, 0, 0, 0x1E, 0xF0], [0x24, 4, 0x33, 0, 0, 0x12], [0x24, 3, 0x36, 0, 0 :: int]]"
  let ?ok = "[[0x24, 4, 0x31, 0xA5, 0xF1, 0], [0x24, 4, 0x32, 0, 0, 0xFF],
      [0x24, 4, 0x33, 0, 0, 0x12 :: int]]"
  let ?replies = "\<lambda>k::nat. if k = 2 then [0, 3] else [0, 64 :: 8 word]"
  have r1: "concat (map feature_reports (take (Suc 2) ?frames)) =
      [[0, 0x24, 4, 0x31, 0xA5, 0xF1, 0], [0, 0x24, 4, 0x32, 0, 0, 0xFF],
       [0, 0x24, 7, 0x34, 0, 0, 0, 0, 0x1E, 0xF0]]"
    by code_simp
  have r2: "concat (map feature_reports ?ok) =
      [[0, 0x24, 4, 0x31, 0xA5, 0xF1, 0], [0, 0x24, 4, 0x32, 0, 0, 0xFF],
       [0, 0x24, 4, 0x33, 0, 0, 0x12]]"
    by code_simp
  have k1: "2 \<le> length ?frames" by simp
  have a1: "\<forall>i<2. ?replies i \<noteq> [] \<and> last (?replies i) = 64" by simp
  have k2: "3 \<le> length ?ok" by simp
  have a2: "\<forall>i<3. (\<lambda>k::nat. [0, 64 :: 8 word]) i \<noteq> [] \<and> last ((\<lambda>k::nat. [0, 64 :: 8 word]) i) = 64"
    by simp
  from flash_acknowledgements [OF k1 a1] have
    "flash ?replies ?frames = (Inl BadChecksum,
      \<lparr>sent = concat (map feature_reports (take (Suc 2) ?frames)), reads = Suc 2\<rparr>)"
    by (simp add: VERIFY_def)
  moreover from flash_acknowledgements [OF k2 a2] have
    "flash (\<lambda>k. [0, 64]) ?ok = (Inr (), \<lparr>sent = concat (map feature_reports ?ok), reads = length ?ok\<rparr>)"
    by simp
  ultimately show ?thesis
    unfolding r1 r2 by simp
qed

end
